theory Spec2Isabelle
  imports Complex_Main "HOL-Library.Sublist" "HOL-Library.AList" "HOL-Library.Product_Lexorder"
begin

section \<open>Label allocator: \<open>getLinkHintLetters\<close> (src/main.ts, lines 258-289)\<close>

text \<open>
  JavaScript strings are modelled as \<^typ>\<open>string\<close>; a one-character string such as
  \<open>alphabet[j]\<close> is a one-element list. The argument \<open>numLinkHints\<close> is always the length
  of an array, hence a natural number.
\<close>

definition alphabet :: string where
  "alphabet = ''ABCDEFGHIJKLMNOPQRSTUVWXYZ''"

text \<open>
  \<open>Math.ceil((numLinkHints - alphabet.length) / (alphabet.length - 1))\<close>, then clamped
  by \<open>Math.max(_, 0)\<close> and \<open>Math.min(_, alphabet.length)\<close>. The quotient is taken over
  the reals: for an array length the double-precision quotient has the same ceiling
  wherever the clamp does not already decide the result.
\<close>

definition prefixCount :: "nat \<Rightarrow> nat" where
  "prefixCount numLinkHints =
     nat (min (max \<lceil>(real numLinkHints - real (length alphabet)) / (real (length alphabet) - 1)\<rceil> 0)
              (int (length alphabet)))"

text \<open>
  The inner \<open>for\<close> loop over \<open>j\<close>: the remaining letters of the alphabet are the loop
  variable, \<open>linkHintLetters\<close> is the array being filled, and the \<open>else\<close> branch is the
  \<open>break\<close>.
\<close>

fun innerLoop :: "nat \<Rightarrow> string list \<Rightarrow> string \<Rightarrow> string \<Rightarrow> string list \<Rightarrow> string list" where
  "innerLoop numLinkHints prefixes' prefix' [] linkHintLetters = linkHintLetters"
| "innerLoop numLinkHints prefixes' prefix' (letter # rest) linkHintLetters =
     (if length linkHintLetters < numLinkHints then
        (if prefix' = [] then
           (if [letter] \<notin> set prefixes'
            then innerLoop numLinkHints prefixes' prefix' rest (linkHintLetters @ [[letter]])
            else innerLoop numLinkHints prefixes' prefix' rest linkHintLetters)
         else innerLoop numLinkHints prefixes' prefix' rest (linkHintLetters @ [prefix' @ [letter]]))
      else linkHintLetters)"

text \<open>The outer \<open>for\<close> loop over \<open>i\<close>: one run of the inner loop for each prefix.\<close>

fun outerLoop :: "nat \<Rightarrow> string list \<Rightarrow> string list \<Rightarrow> string list \<Rightarrow> string list" where
  "outerLoop numLinkHints prefixes' [] linkHintLetters = linkHintLetters"
| "outerLoop numLinkHints prefixes' (prefix' # rest) linkHintLetters =
     outerLoop numLinkHints prefixes' rest
       (innerLoop numLinkHints prefixes' prefix' alphabet linkHintLetters)"

definition getLinkHintLetters :: "nat \<Rightarrow> string list" where
  "getLinkHintLetters numLinkHints =
     (let prefixes' = [] # map (\<lambda>c. [c]) (take (prefixCount numLinkHints) alphabet)
      in outerLoop numLinkHints prefixes' prefixes' [])"

text \<open>
  \<open>xs[i]\<close> on a JavaScript array: \<open>undefined\<close> (here \<open>None\<close>) when \<open>i\<close> is out of range.
\<close>

definition arrayGet :: "'a list \<Rightarrow> nat \<Rightarrow> 'a option" where
  "arrayGet xs i = (if i < length xs then Some (xs ! i) else None)"

section \<open>Hint records (imported from \<open>types\<close>; fields as the code uses them)\<close>

datatype LinkHintType = internal | external

datatype LinkHintMode = modal | popovers

text \<open>
  \<open>letter\<close> is \<open>None\<close> where the code stores \<open>undefined\<close> (a label index beyond the
  allocated labels); \<open>linkText\<close> is \<open>None\<close> where the attribute or capture it is read
  from is absent.
\<close>

record LinkHintBase =
  letter :: "string option"
  linkText :: "string option"
  type :: LinkHintType

record PreviewLinkHint = LinkHintBase +
  top :: int
  left :: int

record SourceLinkHint = LinkHintBase +
  index :: nat

section \<open>Regular expressions of the raw-text locator\<close>

text \<open>
  The fragment of ECMAScript regular expressions that the three patterns of
  \<open>getSourceLinkHints\<close> are written in. \<open>StarLazy\<close> is \<open>*?\<close> and \<open>StarGreedy\<close> is \<open>*\<close>;
  \<open>+?\<close> and \<open>+\<close> are one mandatory iteration followed by the star. \<open>Bol\<close> is \<open>^\<close>
  without the \<open>m\<close> flag, \<open>AnyChar\<close> is \<open>.\<close> without the \<open>s\<close> flag.
\<close>

datatype regex =
    Eps
  | Chr char
  | AnyChar
  | NoneOf "char list"
  | Seq regex regex
  | Alt regex regex
  | Opt regex
  | StarLazy regex
  | StarGreedy regex
  | Group nat regex
  | LookBehind regex
  | Bol

definition PlusLazy :: "regex \<Rightarrow> regex" where
  "PlusLazy r = Seq r (StarLazy r)"

definition PlusGreedy :: "regex \<Rightarrow> regex" where
  "PlusGreedy r = Seq r (StarGreedy r)"

definition Lit :: "string \<Rightarrow> regex" where
  "Lit s = foldr (\<lambda>ch r. Seq (Chr ch) r) s Eps"

text \<open>
  A position in the text is the pair of the text before it, reversed, and the text
  after it; its index is the length of the first component. Captures are kept by
  group number.
\<close>

type_synonym cursor = "string \<times> string"

type_synonym captures = "(nat \<times> string) list"

definition lineTerminator :: "char \<Rightarrow> bool" where
  "lineTerminator ch \<longleftrightarrow> ch = CHR 0x0A \<or> ch = CHR 0x0D"

definition stepBack :: "nat \<Rightarrow> cursor \<Rightarrow> cursor" where
  "stepBack k p = (drop k (fst p), rev (take k (fst p)) @ snd p)"

definition consumed :: "cursor \<Rightarrow> cursor \<Rightarrow> string" where
  "consumed p p' = rev (take (length (fst p') - length (fst p)) (fst p'))"

fun oneChar :: "(char \<Rightarrow> bool) \<Rightarrow> cursor \<Rightarrow> captures \<Rightarrow> (cursor \<times> captures) list" where
  "oneChar ok (seen, []) caps = []"
| "oneChar ok (seen, ch # rest) caps = (if ok ch then [((ch # seen, rest), caps)] else [])"

text \<open>
  The backtracking matcher: all the ways in which \<open>r\<close> matches at position \<open>p\<close>, in the
  order in which a backtracking engine tries them, so that the head of the list is the
  match the engine reports. An iteration of a star that consumes nothing is rejected,
  as in the language definition. A lookbehind succeeds when its body matches some
  stretch of text that ends at the current position.
\<close>

function matches :: "regex \<Rightarrow> cursor \<Rightarrow> captures \<Rightarrow> (cursor \<times> captures) list" where
  "matches Eps p caps = [(p, caps)]"
| "matches (Chr ch) p caps = oneChar (\<lambda>x. x = ch) p caps"
| "matches AnyChar p caps = oneChar (\<lambda>x. \<not> lineTerminator x) p caps"
| "matches (NoneOf chs) p caps = oneChar (\<lambda>x. x \<notin> set chs) p caps"
| "matches (Seq r1 r2) p caps =
     concat (map (\<lambda>(p', caps'). matches r2 p' caps') (matches r1 p caps))"
| "matches (Alt r1 r2) p caps = matches r1 p caps @ matches r2 p caps"
| "matches (Opt r) p caps = matches r p caps @ [(p, caps)]"
| "matches (StarLazy r) p caps =
     (p, caps) #
     concat (map (\<lambda>(p', caps').
                    if length (snd p') < length (snd p) then matches (StarLazy r) p' caps' else [])
                 (matches r p caps))"
| "matches (StarGreedy r) p caps =
     concat (map (\<lambda>(p', caps').
                    if length (snd p') < length (snd p) then matches (StarGreedy r) p' caps' else [])
                 (matches r p caps))
     @ [(p, caps)]"
| "matches (Group n r) p caps =
     map (\<lambda>(p', caps'). (p', AList.update n (consumed p p') caps')) (matches r p caps)"
| "matches (LookBehind r) p caps =
     (if list_ex (\<lambda>k. list_ex (\<lambda>(p', caps'). p' = p) (matches r (stepBack k p) caps))
                 [0..<Suc (length (fst p))]
      then [(p, caps)] else [])"
| "matches Bol p caps = (if fst p = [] then [(p, caps)] else [])"
  by pat_completeness auto
termination
  by (relation "measures [\<lambda>(r, p, caps). size r, \<lambda>(r, p, caps). length (snd p)]") auto

text \<open>
  One call of \<open>RegExp.prototype.exec\<close> on a global expression whose \<open>lastIndex\<close> is the
  index of the position given: the leftmost match that starts at or after it, as the
  pair of its start and of its end with the captures; \<open>None\<close> is \<open>null\<close>.
\<close>

fun exec :: "regex \<Rightarrow> string \<Rightarrow> string \<Rightarrow> (cursor \<times> cursor \<times> captures) option" where
  "exec r seen [] =
     (case matches r (seen, []) [] of
        [] \<Rightarrow> None
      | m # _ \<Rightarrow> Some ((seen, []), m))"
| "exec r seen (ch # rest) =
     (case matches r (seen, ch # rest) [] of
        [] \<Rightarrow> exec r (ch # seen) rest
      | m # _ \<Rightarrow> Some ((seen, ch # rest), m))"

text \<open>
  The loop \<open>while (regExResult = regEx.exec(strs)) { ... push ... }\<close>: every match gives
  its index and its first group, and the next search starts where the match ended. The
  loop has no other exit than a failed search, so the model is a partial function: \<open>None\<close>
  is a loop that never ends.
\<close>

partial_function (option) execLoop :: "regex \<Rightarrow> cursor \<Rightarrow> (nat \<times> string option) list option" where
  "execLoop r p =
     (case exec r (fst p) (snd p) of
        None \<Rightarrow> Some []
      | Some (start, stop, caps) \<Rightarrow>
          Option.bind (execLoop r stop)
            (\<lambda>found. Some ((length (fst start), map_of caps 1) # found)))"

declare execLoop.simps [code]

section \<open>Raw-text locator: \<open>getSourceLinkHints\<close> (src/main.ts, lines 218-256)\<close>

text \<open>\<open>/\[\[(.+?)(\|.+?)?\]\]/g\<close>\<close>

definition regExInternal :: regex where
  "regExInternal =
     Seq (Lit ''[['')
    (Seq (Group 1 (PlusLazy AnyChar))
    (Seq (Opt (Group 2 (Seq (Chr CHR ''|'') (PlusLazy AnyChar))))
         (Lit '']]'')))"

text \<open>\<open>/\[.+?\]\((.+?)\)/g\<close>\<close>

definition regExExternal :: regex where
  "regExExternal =
     Seq (Chr CHR ''['')
    (Seq (PlusLazy AnyChar)
    (Seq (Lit '']('')
    (Seq (Group 1 (PlusLazy AnyChar))
         (Chr CHR '')''))))"

text \<open>\<open>/(?<= |\n|^)(https?:\/\/[^ \n]+)/g\<close>\<close>

definition regExUrl :: regex where
  "regExUrl =
     Seq (LookBehind (Alt (Chr CHR '' '') (Alt (Chr CHR 0x0A) Bol)))
         (Group 1
           (Seq (Lit ''http'')
           (Seq (Opt (Chr CHR ''s''))
           (Seq (Lit ''://'')
                (PlusGreedy (NoneOf [CHR '' '', CHR 0x0A]))))))"

text \<open>
  \<open>strs\<close> is \<open>cmEditor.getValue()\<close>. Each \<open>while\<close> statement pushes onto \<open>linksWithIndex\<close> one after
  the other; \<open>Array.prototype.sort\<close> is stable, so the sort by \<open>x.index - y.index\<close> is the
  stable sort by index.
\<close>

definition getSourceLinkHints :: "string \<Rightarrow> SourceLinkHint list option" where
  "getSourceLinkHints strs =
     Option.bind (execLoop regExInternal ([], strs)) (\<lambda>foundInternal.
     Option.bind (execLoop regExExternal ([], strs)) (\<lambda>foundExternal.
     Option.bind (execLoop regExUrl ([], strs)) (\<lambda>foundUrl.
       let linksWithIndex =
             map (\<lambda>(i, text). (i, internal, text)) foundInternal
             @ map (\<lambda>(i, text). (i, external, text)) foundExternal
             @ map (\<lambda>(i, text). (i, external, text)) foundUrl;
           linkHintLetters = getLinkHintLetters (length linksWithIndex)
       in Some (map (\<lambda>(i, (idx, ty, text)).
                      \<lparr>letter = arrayGet linkHintLetters i, linkText = text, type = ty,
                       index = idx\<rparr>)
                    (enumerate 0 (sort_key fst linksWithIndex))))))"

section \<open>Rendered-view locator: \<open>getPreviewLinkHints\<close> (src/main.ts, lines 127-216)\<close>

text \<open>
  What the locator reads from the DOM. The chain of \<open>offsetParent\<close>s of an element is
  the list of its positioning ancestors, nearest first, each either the preview
  container itself or another element with its own offsets; the chain ends where
  \<open>offsetParent\<close> is \<open>null\<close>.
\<close>

datatype offsetParent = PreviewViewEl | OtherEl int int

record htmlElement =
  offsetTop :: int
  offsetLeft :: int
  offsetParents :: "offsetParent list"

record anchorEl = htmlElement +
  internalLinkClass :: bool
  datasetHref :: "string option"
  href :: string

record embedEl =
  srcAttribute :: "string option"
  markdownEmbedLink :: "htmlElement option"

record previewViewEl =
  anchorEls :: "anchorEl list"
  embedEls :: "embedEl list"

text \<open>The loop \<open>while (offsetParent) { ... }\<close> that accumulates the offsets.\<close>

fun offsetWalk :: "offsetParent list \<Rightarrow> int \<Rightarrow> int \<Rightarrow> int \<times> int" where
  "offsetWalk [] top' left' = (top', left')"
| "offsetWalk (PreviewViewEl # rest) top' left' = (top', left')"
| "offsetWalk (OtherEl t l # rest) top' left' = offsetWalk rest (top' + t) (left' + l)"

definition anchorLinkHint :: "anchorEl \<Rightarrow> PreviewLinkHint" where
  "anchorLinkHint a =
     (let linkType = (if internalLinkClass a then internal else external);
          text = (if linkType = internal then datasetHref a else Some (href a));
          (top', left') = offsetWalk (offsetParents a) (offsetTop a) (offsetLeft a)
      in \<lparr>letter = Some [], linkText = text, type = linkType, top = top', left = left'\<rparr>)"

text \<open>
  \<open>if (linkText && linkEl)\<close>: the attribute is present and not the empty string, and
  the embed has its link element.
\<close>

definition embedLinkHint :: "embedEl \<Rightarrow> PreviewLinkHint list" where
  "embedLinkHint e =
     (case (srcAttribute e, markdownEmbedLink e) of
        (Some text, Some linkEl) \<Rightarrow>
          (if text \<noteq> [] then
             (let (top', left') = offsetWalk (offsetParents linkEl) (offsetTop linkEl) (offsetLeft linkEl)
              in [\<lparr>letter = Some [], linkText = Some text, type = internal,
                    top = top', left = left'\<rparr>])
           else [])
      | _ \<Rightarrow> [])"

text \<open>
  The comparator orders by \<open>top\<close>, then by \<open>left\<close>, and \<open>sort\<close> is stable: the stable
  sort by the pair.
\<close>

definition getPreviewLinkHints :: "previewViewEl \<Rightarrow> PreviewLinkHint list" where
  "getPreviewLinkHints el =
     (let linkHints = map anchorLinkHint (anchorEls el) @ concat (map embedLinkHint (embedEls el));
          sortedLinkHints = sort_key (\<lambda>h. (top h, left h)) linkHints;
          linkHintLetters = getLinkHintLetters (length sortedLinkHints)
      in map (\<lambda>(i, h). h\<lparr>letter := arrayGet linkHintLetters i\<rparr>) (enumerate 0 sortedLinkHints))"

section \<open>The plugin and the document it acts on\<close>

text \<open>
  \<open>linkHintMap\<close> is the object that \<open>activateLinkHints\<close> fills, as the list of its own
  properties. \<open>handleKeyDown\<close> is a closure over that object, so a registered listener is
  represented by the object it closes over; two listeners over equal objects behave
  alike, and removing either leaves the same document.
\<close>

type_synonym linkHintMap = "(string \<times> LinkHintBase) list"

datatype hostRequest =
    OpenLinkText "string option" string bool
  | OpenExternal "string option"

text \<open>
  The fields \<open>isLinkHintActive\<close>, \<open>prefixInfo\<close> and \<open>settings.mode\<close> of the plugin; of the
  document, the \<open>keydown\<close> listeners, the elements that \<open>.jl.popover\<close> selects (each by
  the letter it shows) and those that \<open>#jl-modal\<close> selects (each by the hints it lists);
  and, as a record of what has been called, the arguments of every call of
  \<open>handleHotkey\<close> and the requests made to the host application.
\<close>

record state =
  isLinkHintActive :: bool
  prefixInfo :: "(string \<times> bool) option"
  mode :: LinkHintMode
  keydownListeners :: "linkHintMap list"
  jlPopovers :: "string option list"
  jlModals :: "LinkHintBase list list"
  hotkeyCalls :: "(bool \<times> LinkHintBase) list"
  hostRequests :: "hostRequest list"

definition initial :: "LinkHintMode \<Rightarrow> state" where
  "initial m =
     \<lparr>isLinkHintActive = False, prefixInfo = None, mode = m, keydownListeners = [],
      jlPopovers = [], jlModals = [], hotkeyCalls = [], hostRequests = []\<rparr>"

record KeyboardEvent =
  key :: string
  shiftKey :: bool

text \<open>
  What the plugin does not decide itself. A call into the host application
  (\<open>openLinkText\<close>, or \<open>require('electron').shell.openExternal\<close>) either returns or throws.
  \<open>String.prototype.toUpperCase\<close> is fixed by the language on ASCII text, where it maps
  \<open>a\<close> to \<open>z\<close> onto \<open>A\<close> to \<open>Z\<close> and leaves every other character; on text with other
  characters (in the model, characters from 128 on) its result is the engine's, which
  may change letters and lengths.
\<close>

datatype completion = Returned | Threw

record environment =
  hostCall :: "hostRequest \<Rightarrow> completion"
  engineUpperCase :: "string \<Rightarrow> string"

definition isAscii :: "char \<Rightarrow> bool" where
  "isAscii ch \<longleftrightarrow> \<not> digit7 ch"

definition toUpperAscii :: "char \<Rightarrow> char" where
  "toUpperAscii ch =
     (case map_of (zip ''abcdefghijklmnopqrstuvwxyz'' ''ABCDEFGHIJKLMNOPQRSTUVWXYZ'') ch of
        Some u \<Rightarrow> u
      | None \<Rightarrow> ch)"

definition toUpperCase :: "environment \<Rightarrow> string \<Rightarrow> string" where
  "toUpperCase env s = (if list_all isAscii s then map toUpperAscii s else engineUpperCase env s)"

text \<open>The property key that a letter is converted to: \<open>undefined\<close> becomes its name.\<close>

definition propertyKey :: "string option \<Rightarrow> string" where
  "propertyKey l = (case l of Some s \<Rightarrow> s | None \<Rightarrow> ''undefined'')"

text \<open>
  \<open>linkHintMap[x.letter] = x\<close>. Assigning an object to the key \<open>__proto__\<close> of an
  object literal sets its prototype and creates no property.
\<close>

definition setProperty :: "LinkHintBase \<Rightarrow> linkHintMap \<Rightarrow> linkHintMap" where
  "setProperty x linkHintMap =
     (if propertyKey (letter x) = ''__proto__'' then linkHintMap
      else AList.update (propertyKey (letter x)) x linkHintMap)"

text \<open>
  \<open>handleHotkey\<close>: the call and the request are recorded, and the call completes as the
  host call does.
\<close>

definition handleHotkey :: "environment \<Rightarrow> bool \<Rightarrow> LinkHintBase \<Rightarrow> state \<Rightarrow> completion \<times> state" where
  "handleHotkey env newLeaf link st =
     (let request = (case type link of
                       internal \<Rightarrow> OpenLinkText (linkText link) [] newLeaf
                     | external \<Rightarrow> OpenExternal (linkText link))
      in (hostCall env request,
          st\<lparr>hotkeyCalls := hotkeyCalls st @ [(newLeaf, link)],
             hostRequests := hostRequests st @ [request]\<rparr>))"

text \<open>
  \<open>new Set(Object.keys(linkHintMap).filter(x => x.length > 1).map(x => x[0]))\<close>, as the
  list of its members.
\<close>

definition prefixesOf :: "linkHintMap \<Rightarrow> string list" where
  "prefixesOf linkHintMap = map (\<lambda>x. [hd x]) (filter (\<lambda>x. length x > 1) (map fst linkHintMap))"

text \<open>Lines 116 to 120: the listener removes itself and the overlays and clears the session.\<close>

definition teardown :: "linkHintMap \<Rightarrow> state \<Rightarrow> state" where
  "teardown linkHintMap st =
     st\<lparr>keydownListeners := remove1 linkHintMap (keydownListeners st),
        jlPopovers := [],
        jlModals := [],
        prefixInfo := None,
        isLinkHintActive := False\<rparr>"

text \<open>
  What a call of the listener leaves: whether it returned or threw, whether it consumed
  the event (\<open>preventDefault\<close>, \<open>stopPropagation\<close> and \<open>stopImmediatePropagation\<close> are always
  called together), and the state after it.
\<close>

record outcome =
  completed :: completion
  stopped :: bool
  after :: state

text \<open>
  Lines 108 to 120 of \<open>handleKeyDown\<close>, which every path but the two early returns
  runs: the event is consumed, \<open>newLeaf\<close> is \<open>this.prefixInfo?.shiftKey || event.shiftKey\<close>,
  the hint that was found, if any, is handed to \<open>handleHotkey\<close>, and the session is torn
  down. There is no \<open>try\<close> around line 114: where the host call throws, the listener
  ends there and lines 116 to 120 are not run.
\<close>

definition resolveKeyDown ::
  "environment \<Rightarrow> linkHintMap \<Rightarrow> KeyboardEvent \<Rightarrow> LinkHintBase option \<Rightarrow> state \<Rightarrow> outcome" where
  "resolveKeyDown env linkHintMap event linkHint st =
     (let newLeaf = (case prefixInfo st of
                       Some (prefix', shift) \<Rightarrow> shift \<or> shiftKey event
                     | None \<Rightarrow> shiftKey event)
      in case linkHint of
           None \<Rightarrow> \<lparr>completed = Returned, stopped = True, after = teardown linkHintMap st\<rparr>
         | Some link \<Rightarrow>
             (case handleHotkey env newLeaf link st of
                (Returned, st') \<Rightarrow>
                  \<lparr>completed = Returned, stopped = True, after = teardown linkHintMap st'\<rparr>
              | (Threw, st') \<Rightarrow>
                  \<lparr>completed = Threw, stopped = True, after = st'\<rparr>))"

definition handleKeyDown :: "environment \<Rightarrow> linkHintMap \<Rightarrow> KeyboardEvent \<Rightarrow> state \<Rightarrow> outcome" where
  "handleKeyDown env linkHintMap event st =
     (if key event = ''Shift'' then \<lparr>completed = Returned, stopped = False, after = st\<rparr>
      else
        let eventKey = toUpperCase env (key event) in
        case prefixInfo st of
          Some (prefix', shift) \<Rightarrow>
            resolveKeyDown env linkHintMap event (map_of linkHintMap (prefix' @ eventKey)) st
        | None \<Rightarrow>
            (let linkHint = map_of linkHintMap eventKey in
             if linkHint = None \<and> eventKey \<in> set (prefixesOf linkHintMap)
             then \<lparr>completed = Returned, stopped = True,
                   after = st\<lparr>prefixInfo := Some (eventKey, shiftKey event)\<rparr>\<rparr>
             else resolveKeyDown env linkHintMap event linkHint st))"

definition activateLinkHints :: "LinkHintBase list \<Rightarrow> state \<Rightarrow> state" where
  "activateLinkHints linkHints st =
     (let linkHintMap = fold setProperty linkHints []
      in st\<lparr>keydownListeners := keydownListeners st @ [linkHintMap],
            isLinkHintActive := True\<rparr>)"

definition displayModal :: "LinkHintBase list \<Rightarrow> state \<Rightarrow> state" where
  "displayModal linkHints st = st\<lparr>jlModals := jlModals st @ [linkHints]\<rparr>"

definition displayPopovers :: "LinkHintBase list \<Rightarrow> state \<Rightarrow> state" where
  "displayPopovers linkHints st = st\<lparr>jlPopovers := jlPopovers st @ map letter linkHints\<rparr>"

text \<open>
  The body that \<open>managePreviewLinkHints\<close> and \<open>manageSourceLinkHints\<close> share, on the
  hints that the locator of the view returned; \<open>displayPreviewPopovers\<close> and
  \<open>displaySourcePopovers\<close> both add one \<open>.jl.popover\<close> element for each hint.
\<close>

definition manageLinkHints :: "LinkHintBase list \<Rightarrow> state \<Rightarrow> state" where
  "manageLinkHints linkHints st =
     (if linkHints \<noteq> [] then
        activateLinkHints linkHints
          (case mode st of
             modal \<Rightarrow> displayModal linkHints st
           | popovers \<Rightarrow> displayPopovers linkHints st)
      else st)"

definition managePreviewLinkHints :: "previewViewEl \<Rightarrow> state \<Rightarrow> state" where
  "managePreviewLinkHints el st = manageLinkHints (map LinkHintBase.truncate (getPreviewLinkHints el)) st"

definition manageSourceLinkHints :: "string \<Rightarrow> state \<Rightarrow> state option" where
  "manageSourceLinkHints strs st =
     map_option (\<lambda>linkHints. manageLinkHints (map LinkHintBase.truncate linkHints) st)
       (getSourceLinkHints strs)"

text \<open>
  The view of the active leaf, as \<open>handleJumpToLink\<close> tells its kinds apart: the
  preview of a note with its container element, the editor with its text, and
  anything else.
\<close>

datatype view = PreviewView previewViewEl | SourceView string | OtherView

definition handleJumpToLink :: "view \<Rightarrow> state \<Rightarrow> state option" where
  "handleJumpToLink currentView st =
     (if isLinkHintActive st then Some st
      else case currentView of
             PreviewView el \<Rightarrow> Some (managePreviewLinkHints el st)
           | SourceView strs \<Rightarrow> manageSourceLinkHints strs st
           | OtherView \<Rightarrow> Some st)"

text \<open>
  Delivery of a \<open>keydown\<close> event by the document: the listeners registered when the
  event arrives are called in the order of their registration, one that has been
  removed in the meantime is passed over, and \<open>stopImmediatePropagation\<close> ends the
  delivery. A listener that throws is reported and the delivery goes on.
\<close>

fun deliver :: "environment \<Rightarrow> linkHintMap list \<Rightarrow> KeyboardEvent \<Rightarrow> state \<Rightarrow> state" where
  "deliver env [] event st = st"
| "deliver env (listener # rest) event st =
     (if listener \<in> set (keydownListeners st) then
        (let r = handleKeyDown env listener event st
         in if stopped r then after r else deliver env rest event (after r))
      else deliver env rest event st)"

definition keydown :: "environment \<Rightarrow> KeyboardEvent \<Rightarrow> state \<Rightarrow> state" where
  "keydown env event st = deliver env (keydownListeners st) event st"

text \<open>
  The states the plugin can be in: it starts with no session, and from then on the
  command is invoked on some view, keys are pressed, whatever the host and the engine
  do, and the setting is changed.
\<close>

inductive reachable :: "state \<Rightarrow> bool" where
  start: "reachable (initial m)"
| command: "reachable st \<Longrightarrow> handleJumpToLink v st = Some st' \<Longrightarrow> reachable st'"
| keystroke: "reachable st \<Longrightarrow> reachable (keydown env event st)"
| setting: "reachable st \<Longrightarrow> reachable (st\<lparr>mode := m\<rparr>)"

section \<open>Definitions used in the statements and proofs\<close>

text \<open>
  What one run of the inner loop of \<open>getLinkHintLetters\<close> would emit if it were never
  cut short, and the whole sequence of labels for a given number of prefix letters:
  the single letters that are not prefixes, then every prefix letter followed by every
  letter.
\<close>

definition emitted :: "string list \<Rightarrow> string \<Rightarrow> string \<Rightarrow> string list" where
  "emitted ps p letters =
     (if p = [] then map (\<lambda>c. [c]) (filter (\<lambda>c. [c] \<notin> set ps) letters)
      else map (\<lambda>c. p @ [c]) letters)"

definition allLabels :: "nat \<Rightarrow> string list" where
  "allLabels p =
     map (\<lambda>c. [c]) (drop p alphabet)
     @ map (\<lambda>(q, c). [q, c]) (List.product (take p alphabet) alphabet)"

text \<open>A hint, a session on given labels and a key press, for concrete runs.\<close>

definition exampleHint :: "string \<Rightarrow> LinkHintBase" where
  "exampleHint l = \<lparr>letter = Some l, linkText = Some (''note '' @ l), type = internal\<rparr>"

definition exampleSession :: "string list \<Rightarrow> state" where
  "exampleSession ls = manageLinkHints (map exampleHint ls) (initial popovers)"

definition pressed :: "string \<Rightarrow> bool \<Rightarrow> KeyboardEvent" where
  "pressed k s = \<lparr>key = k, shiftKey = s\<rparr>"

text \<open>A host whose calls return, with an engine that leaves other text as it is.\<close>

definition exampleEnv :: environment where
  "exampleEnv = \<lparr>hostCall = (\<lambda>request. Returned), engineUpperCase = (\<lambda>s. s)\<rparr>"

text \<open>A host whose calls throw.\<close>

definition exampleThrowingEnv :: environment where
  "exampleThrowingEnv = \<lparr>hostCall = (\<lambda>request. Threw), engineUpperCase = (\<lambda>s. s)\<rparr>"

text \<open>A preview with one internal link, positioned directly in the container.\<close>

definition examplePreview :: previewViewEl where
  "examplePreview =
     \<lparr>anchorEls =
        [\<lparr>offsetTop = 12, offsetLeft = 40, offsetParents = [PreviewViewEl],
          internalLinkClass = True, datasetHref = Some ''note A'',
          href = ''app://obsidian.md/note%20A''\<rparr>],
      embedEls = []\<rparr>"

text \<open>
  A preview with 27 internal links, one below the other, and the session that the
  command opens on it; its labels are \<open>B\<close> to \<open>Z\<close>, \<open>AA\<close> and \<open>AB\<close>, and the links lead to
  the notes \<open>a\<close> to \<open>z\<close> and \<open>0\<close>.
\<close>

definition examplePreview27 :: previewViewEl where
  "examplePreview27 =
     \<lparr>anchorEls =
        map (\<lambda>i. \<lparr>offsetTop = 20 * int i, offsetLeft = 40, offsetParents = [PreviewViewEl],
                   internalLinkClass = True,
                   datasetHref = Some [''abcdefghijklmnopqrstuvwxyz0'' ! i],
                   href = ''app://obsidian.md/''\<rparr>)
            [0..<27],
      embedEls = []\<rparr>"

definition exampleSession27 :: state where
  "exampleSession27 = managePreviewLinkHints examplePreview27 (initial popovers)"

definition exampleNote :: "string \<Rightarrow> char \<Rightarrow> LinkHintBase" where
  "exampleNote l ch = \<lparr>letter = Some l, linkText = Some [ch], type = internal\<rparr>"

definition exampleMap27 :: linkHintMap where
  "exampleMap27 =
     map (\<lambda>(l, ch). (l, exampleNote l ch))
         (zip (map (\<lambda>ch. [ch]) ''BCDEFGHIJKLMNOPQRSTUVWXYZ'' @ [''AA'', ''AB''])
              ''abcdefghijklmnopqrstuvwxyz0'')"

text \<open>No label of the map is a strict prefix of another, as in every allocated set.\<close>

definition prefixFree :: "linkHintMap \<Rightarrow> bool" where
  "prefixFree linkHintMap \<longleftrightarrow>
     (\<forall>x \<in> set (map fst linkHintMap). \<forall>y \<in> set (map fst linkHintMap). \<not> strict_prefix x y)"

text \<open>
  The number of registered listeners agrees with the flag: one while a session is
  active, none otherwise.
\<close>

definition oneSession :: "state \<Rightarrow> bool" where
  "oneSession st \<longleftrightarrow> length (keydownListeners st) = (if isLinkHintActive st then 1 else 0)"

section \<open>Properties of the label allocator\<close>

lemma length_alphabet: "length alphabet = 26"
  by (simp add: alphabet_def)

lemma distinct_alphabet: "distinct alphabet"
  by (simp add: alphabet_def)

text \<open>The number of prefix letters in integer arithmetic.\<close>

lemma prefixCount_int:
  "prefixCount n = nat (min (max (- ((26 - int n) div 25)) 0) 26)"
proof -
  have "(real n - 26) / 25 = real_of_int (int n - 26) / real_of_int 25"
    by simp
  also have "\<lceil>\<dots>\<rceil> = - ((26 - int n) div 25)"
    by (simp only: ceiling_divide_eq_div minus_diff_eq)
  finally show ?thesis
    by (simp add: prefixCount_def length_alphabet)
qed

lemma emitted_Cons:
  "emitted ps p (c # cs) =
     (if p = [] then (if [c] \<notin> set ps then [c] # emitted ps p cs else emitted ps p cs)
      else (p @ [c]) # emitted ps p cs)"
  by (simp add: emitted_def)

lemma innerLoop_take:
  "innerLoop n ps p letters acc = acc @ take (n - length acc) (emitted ps p letters)"
proof (induction letters arbitrary: acc)
  case Nil
  show ?case by (simp add: emitted_def)
next
  case (Cons c cs)
  show ?case
  proof (cases "length acc < n")
    case False
    then show ?thesis by simp
  next
    case True
    then obtain k where k: "n - length acc = Suc k"
      by (metis Suc_diff_Suc)
    then have k': "n - Suc (length acc) = k" by simp
    show ?thesis
    proof (cases "p = []")
      case True
      with \<open>length acc < n\<close> show ?thesis
        using Cons.IH [of "acc @ [[c]]"] Cons.IH [of acc]
        by (simp add: emitted_Cons k k')
    next
      case False
      with \<open>length acc < n\<close> show ?thesis
        using Cons.IH [of "acc @ [p @ [c]]"]
        by (simp add: emitted_Cons k k')
    qed
  qed
qed

lemma outerLoop_take:
  "outerLoop n ps qs acc =
     acc @ take (n - length acc) (concat (map (\<lambda>p. emitted ps p alphabet) qs))"
proof (induction qs arbitrary: acc)
  case Nil
  show ?case by simp
next
  case (Cons q qs)
  show ?case
    by (simp add: Cons.IH innerLoop_take min_def) 
qed

lemma filter_not_in_take:
  assumes "distinct xs"
  shows "filter (\<lambda>x. x \<notin> set (take p xs)) xs = drop p xs"
proof -
  have disj: "set (take p xs) \<inter> set (drop p xs) = {}"
    using assms by (simp add: set_take_disj_set_drop_if_distinct)
  have "filter (\<lambda>x. x \<notin> set (take p xs)) (take p xs @ drop p xs) = drop p xs"
    unfolding filter_append using disj by (auto simp: filter_empty_conv filter_id_conv)
  then show ?thesis by simp
qed

lemma singles_emitted:
  "emitted ([] # map (\<lambda>c. [c]) (take p alphabet)) [] alphabet = map (\<lambda>c. [c]) (drop p alphabet)"
proof -
  have "(\<lambda>c. [c] \<notin> set ([] # map (\<lambda>c. [c]) (take p alphabet)))
          = (\<lambda>c. c \<notin> set (take p alphabet))"
    by auto
  then show ?thesis
    by (simp add: emitted_def filter_not_in_take [OF distinct_alphabet])
qed

lemma doubles_emitted:
  "concat (map ((\<lambda>p. emitted ps p cs) \<circ> (\<lambda>c. [c])) qs)
     = map (\<lambda>(q, c). [q, c]) (List.product qs cs)"
  by (induction qs) (simp_all add: emitted_def)

lemma getLinkHintLetters_closed:
  "getLinkHintLetters n = take n (allLabels (prefixCount n))"
  by (simp add: getLinkHintLetters_def Let_def outerLoop_take singles_emitted
        doubles_emitted allLabels_def)

lemma prefixCount_le: "prefixCount n \<le> 26"
  by (simp add: prefixCount_int)

lemma length_allLabels:
  "p \<le> 26 \<Longrightarrow> length (allLabels p) = 26 + 25 * p"
  by (simp add: allLabels_def length_alphabet min_def)

lemma prefixCount_enough: "min n (26 + 25 * prefixCount n) = min n 676"
proof -
  define d where "d = (26 - int n) div 25"
  have lo: "25 * d \<le> 26 - int n" and hi: "26 - int n < 25 * d + 25"
    unfolding d_def by presburger+
  have p: "prefixCount n = nat (min (max (- d) 0) 26)"
    by (simp add: prefixCount_int d_def)
  consider "0 \<le> d" | "d < 0" "- 26 \<le> d" | "d < - 26" by linarith
  then show ?thesis
  proof cases
    case 1
    with lo hi show ?thesis by (simp add: p)
  next
    case 2
    then have "prefixCount n = nat (- d)" by (simp add: p)
    with 2 lo hi show ?thesis by (simp add: min_def)
  next
    case 3
    then have "prefixCount n = 26" by (simp add: p)
    with 3 lo hi show ?thesis by simp
  qed
qed

lemma distinct_allLabels: "distinct (allLabels p)"
proof -
  have "distinct (map (\<lambda>c. [c]) (drop p alphabet))"
    by (simp add: distinct_map distinct_alphabet inj_on_def)
  moreover have "distinct (map (\<lambda>(q, c). [q, c]) (List.product (take p alphabet) alphabet))"
    by (auto simp: distinct_map distinct_product distinct_alphabet inj_on_def)
  ultimately show ?thesis
    by (auto simp: allLabels_def)
qed

lemma allLabels_prefix_free:
  assumes "x \<in> set (allLabels p)" and "y \<in> set (allLabels p)"
  shows "\<not> strict_prefix x y"
proof
  assume sp: "strict_prefix x y"
  then have len: "length x < length y"
    by (metis prefix_length_less)
  from assms have "length x = 1 \<or> length x = 2" "length y = 1 \<or> length y = 2"
    by (auto simp: allLabels_def)
  with len have lx: "length x = 1" and ly: "length y = 2" by auto
  from lx assms(1) obtain c where x: "x = [c]" and c: "c \<in> set (drop p alphabet)"
    by (auto simp: allLabels_def)
  from ly assms(2) obtain q d where y: "y = [q, d]" and q: "q \<in> set (take p alphabet)"
    by (auto simp: allLabels_def)
  from sp x y have "c = q" by (auto simp: strict_prefix_def)
  moreover have "set (take p alphabet) \<inter> set (drop p alphabet) = {}"
    by (simp add: set_take_disj_set_drop_if_distinct distinct_alphabet)
  ultimately show False using c q by auto
qed

text \<open>
  C2. For every \<open>n\<close>, \<open>getLinkHintLetters n\<close> returns exactly \<open>min n 676\<close> labels, and
  they are pairwise distinct: \<open>n\<close> labels up to 676, and fewer than requested beyond.
\<close>

theorem getLinkHintLetters_count_distinct:
  "length (getLinkHintLetters n) = min n 676 \<and> distinct (getLinkHintLetters n)"
  by (simp add: getLinkHintLetters_closed length_allLabels prefixCount_le
        prefixCount_enough distinct_allLabels min.commute)

text \<open>
  C3. For every \<open>n\<close>, no label returned by \<open>getLinkHintLetters n\<close> is a strict prefix of
  another label of the same result.
\<close>

theorem getLinkHintLetters_prefix_free:
  "x \<in> set (getLinkHintLetters n) \<Longrightarrow> y \<in> set (getLinkHintLetters n) \<Longrightarrow> \<not> strict_prefix x y"
  unfolding getLinkHintLetters_closed
  by (meson allLabels_prefix_free in_set_takeD)

theorem getLinkHintLetters_prefix_free_witness:
  "''B'' \<in> set (getLinkHintLetters 27) \<and> ''AA'' \<in> set (getLinkHintLetters 27)
     \<and> \<not> strict_prefix ''B'' ''AA''"
  using getLinkHintLetters_prefix_free [of "''B''" 27 "''AA''"]
  by (simp add: getLinkHintLetters_def prefixCount_int alphabet_def)

text \<open>
  C9. For \<open>n \<le> 26\<close>, \<open>getLinkHintLetters n\<close> is the first \<open>n\<close> letters of the alphabet,
  each as a one-letter label, in alphabet order.
\<close>

theorem getLinkHintLetters_single_letters:
  "n \<le> 26 \<Longrightarrow> getLinkHintLetters n = map (\<lambda>c. [c]) (take n alphabet)"
  by (simp add: getLinkHintLetters_closed prefixCount_int allLabels_def take_map)

theorem getLinkHintLetters_single_letters_witness:
  "(3::nat) \<le> 26 \<and> getLinkHintLetters 3 = [''A'', ''B'', ''C'']"
  using getLinkHintLetters_single_letters [of 3]
  by (simp add: alphabet_def)

section \<open>Properties of the keystroke handler\<close>

subsection \<open>Case normalisation and the set of prefixes\<close>

lemma letter_pairs:
  "list_all (\<lambda>(lo, up). isAscii lo \<and> isAscii up \<and> toUpperAscii lo = up \<and> toUpperAscii up = up)
     (zip ''abcdefghijklmnopqrstuvwxyz'' ''ABCDEFGHIJKLMNOPQRSTUVWXYZ'')"
  by (simp add: isAscii_def toUpperAscii_def)

lemma toUpperCase_letter:
  assumes "(lo, up) \<in> set (zip ''abcdefghijklmnopqrstuvwxyz'' ''ABCDEFGHIJKLMNOPQRSTUVWXYZ'')"
  shows "toUpperCase env [lo] = [up]" and "toUpperCase env [up] = [up]"
proof -
  have "\<forall>x \<in> set (zip ''abcdefghijklmnopqrstuvwxyz'' ''ABCDEFGHIJKLMNOPQRSTUVWXYZ'').
          (\<lambda>(lo, up). isAscii lo \<and> isAscii up \<and> toUpperAscii lo = up \<and> toUpperAscii up = up) x"
    using letter_pairs by (simp only: list_all_iff)
  then have "(\<lambda>(lo, up). isAscii lo \<and> isAscii up \<and> toUpperAscii lo = up \<and> toUpperAscii up = up) (lo, up)"
    using assms by (rule bspec)
  then have "isAscii lo \<and> isAscii up \<and> toUpperAscii lo = up \<and> toUpperAscii up = up"
    by (simp only: prod.case)
  then show "toUpperCase env [lo] = [up]" and "toUpperCase env [up] = [up]"
    by (simp_all add: toUpperCase_def)
qed

lemma prefixesOf_member:
  "map_of m (c # d # rest) = Some h \<Longrightarrow> [c] \<in> set (prefixesOf m)"
proof -
  assume "map_of m (c # d # rest) = Some h"
  then have "(c # d # rest) \<in> set (map fst m)"
    by (metis map_of_SomeD fst_conv image_eqI set_map)
  then have "(c # d # rest) \<in> set (filter (\<lambda>x. length x > 1) (map fst m))"
    by simp
  then have "[hd (c # d # rest)] \<in> set (prefixesOf m)"
    unfolding prefixesOf_def by (metis (no_types, lifting) image_eqI set_map)
  then show ?thesis by simp
qed

lemma prefixFree_no_B:
  assumes "prefixFree m" and "map_of m ''BA'' = Some h"
  shows "map_of m ''B'' = None"
proof (rule ccontr)
  assume "map_of m ''B'' \<noteq> None"
  then obtain h' where "map_of m ''B'' = Some h'" by auto
  then have b: "''B'' \<in> set (map fst m)"
    by (metis map_of_SomeD fst_conv image_eqI set_map)
  from assms(2) have ba: "''BA'' \<in> set (map fst m)"
    by (metis map_of_SomeD fst_conv image_eqI set_map)
  have "strict_prefix ''B'' ''BA''"
    by (simp add: strict_prefix_def)
  with assms(1) b ba show False
    unfolding prefixFree_def by blast
qed

subsection \<open>The paths through \<open>handleKeyDown\<close>\<close>

lemma handleHotkey_fields [simp]:
  "keydownListeners (snd (handleHotkey env n l st)) = keydownListeners st"
  "isLinkHintActive (snd (handleHotkey env n l st)) = isLinkHintActive st"
  "prefixInfo (snd (handleHotkey env n l st)) = prefixInfo st"
  "jlPopovers (snd (handleHotkey env n l st)) = jlPopovers st"
  "jlModals (snd (handleHotkey env n l st)) = jlModals st"
  "mode (snd (handleHotkey env n l st)) = mode st"
  "hotkeyCalls (snd (handleHotkey env n l st)) = hotkeyCalls st @ [(n, l)]"
  by (simp_all add: handleHotkey_def Let_def)

lemma handleHotkey_returns:
  "(\<forall>request. hostCall env request = Returned) \<Longrightarrow> fst (handleHotkey env n l st) = Returned"
  by (simp add: handleHotkey_def Let_def)

lemma teardown_fields [simp]:
  "keydownListeners (teardown m st) = remove1 m (keydownListeners st)"
  "jlPopovers (teardown m st) = []"
  "jlModals (teardown m st) = []"
  "prefixInfo (teardown m st) = None"
  "\<not> isLinkHintActive (teardown m st)"
  "mode (teardown m st) = mode st"
  "hotkeyCalls (teardown m st) = hotkeyCalls st"
  "hostRequests (teardown m st) = hostRequests st"
  by (simp_all add: teardown_def)

lemma resolveKeyDown_None:
  "resolveKeyDown env m event None st
     = \<lparr>completed = Returned, stopped = True, after = teardown m st\<rparr>"
  by (simp add: resolveKeyDown_def)

lemma resolveKeyDown_Some_Returned:
  assumes "newLeaf = (case prefixInfo st of Some (p, s) \<Rightarrow> s \<or> shiftKey event | None \<Rightarrow> shiftKey event)"
    and "fst (handleHotkey env newLeaf link st) = Returned"
  shows "resolveKeyDown env m event (Some link) st
     = \<lparr>completed = Returned, stopped = True,
        after = teardown m (snd (handleHotkey env newLeaf link st))\<rparr>"
proof -
  obtain c st' where h: "handleHotkey env newLeaf link st = (c, st')"
    by (cases "handleHotkey env newLeaf link st")
  with assms(2) have "c = Returned" by simp
  with h show ?thesis
    unfolding resolveKeyDown_def Let_def assms(1) [symmetric] by simp
qed

lemma resolveKeyDown_Some_Threw:
  assumes "newLeaf = (case prefixInfo st of Some (p, s) \<Rightarrow> s \<or> shiftKey event | None \<Rightarrow> shiftKey event)"
    and "fst (handleHotkey env newLeaf link st) = Threw"
  shows "resolveKeyDown env m event (Some link) st
     = \<lparr>completed = Threw, stopped = True, after = snd (handleHotkey env newLeaf link st)\<rparr>"
proof -
  obtain c st' where h: "handleHotkey env newLeaf link st = (c, st')"
    by (cases "handleHotkey env newLeaf link st")
  with assms(2) have "c = Threw" by simp
  with h show ?thesis
    unfolding resolveKeyDown_def Let_def assms(1) [symmetric] by simp
qed

text \<open>The two ways in which a resolving call ends.\<close>

lemma resolveKeyDown_cases:
  obtains (returned) st' where
      "resolveKeyDown env m event found st
         = \<lparr>completed = Returned, stopped = True, after = teardown m st'\<rparr>"
      "keydownListeners st' = keydownListeners st"
      "hotkeyCalls st' = hotkeyCalls st @
         (case found of
            None \<Rightarrow> []
          | Some link \<Rightarrow>
              [(case prefixInfo st of Some (p, s) \<Rightarrow> s \<or> shiftKey event | None \<Rightarrow> shiftKey event,
                link)])"
    | (threw) st' where
      "resolveKeyDown env m event found st = \<lparr>completed = Threw, stopped = True, after = st'\<rparr>"
      "keydownListeners st' = keydownListeners st"
      "isLinkHintActive st' = isLinkHintActive st"
      "hotkeyCalls st' = hotkeyCalls st @
         (case found of
            None \<Rightarrow> []
          | Some link \<Rightarrow>
              [(case prefixInfo st of Some (p, s) \<Rightarrow> s \<or> shiftKey event | None \<Rightarrow> shiftKey event,
                link)])"
      "\<exists>request. hostCall env request = Threw"
proof (cases found)
  case None
  then show ?thesis
    using returned [of st] by (simp add: resolveKeyDown_None)
next
  case (Some link)
  define newLeaf where
    "newLeaf = (case prefixInfo st of Some (p, s) \<Rightarrow> s \<or> shiftKey event | None \<Rightarrow> shiftKey event)"
  show ?thesis
  proof (cases "fst (handleHotkey env newLeaf link st)")
    case Returned
    from resolveKeyDown_Some_Returned [OF newLeaf_def Returned, of m] Some
    show ?thesis
      using returned [of "snd (handleHotkey env newLeaf link st)"] by (simp add: newLeaf_def)
  next
    case Threw
    then have ex: "\<exists>request. hostCall env request = Threw"
      by (auto simp: handleHotkey_def Let_def)
    from resolveKeyDown_Some_Threw [OF newLeaf_def Threw, of m] Some ex
    show ?thesis
      using threw [of "snd (handleHotkey env newLeaf link st)"] by (simp add: newLeaf_def)
  qed
qed




lemma resolveKeyDown_calls:
  "hotkeyCalls (after (resolveKeyDown env m event found st)) =
     hotkeyCalls st @
     (case found of
        None \<Rightarrow> []
      | Some link \<Rightarrow>
          [(case prefixInfo st of Some (p, s) \<Rightarrow> s \<or> shiftKey event | None \<Rightarrow> shiftKey event, link)])"
  by (rule resolveKeyDown_cases [of env m event found st]) simp_all

lemma resolveKeyDown_same_shift:
  assumes "shiftKey event = shiftKey event'"
  shows "resolveKeyDown env m event found st = resolveKeyDown env m event' found st"
  unfolding resolveKeyDown_def assms ..

lemma handleKeyDown_Shift:
  "key event = ''Shift'' \<Longrightarrow>
     handleKeyDown env m event st = \<lparr>completed = Returned, stopped = False, after = st\<rparr>"
  by (simp add: handleKeyDown_def)

lemma handleKeyDown_pending:
  "key event \<noteq> ''Shift'' \<Longrightarrow> prefixInfo st = Some (p, s) \<Longrightarrow>
     handleKeyDown env m event st
       = resolveKeyDown env m event (map_of m (p @ toUpperCase env (key event))) st"
  by (simp add: handleKeyDown_def Let_def)

lemma handleKeyDown_prefix:
  "key event \<noteq> ''Shift'' \<Longrightarrow> prefixInfo st = None \<Longrightarrow>
   map_of m (toUpperCase env (key event)) = None \<Longrightarrow>
   toUpperCase env (key event) \<in> set (prefixesOf m) \<Longrightarrow>
     handleKeyDown env m event st
       = \<lparr>completed = Returned, stopped = True,
          after = st\<lparr>prefixInfo := Some (toUpperCase env (key event), shiftKey event)\<rparr>\<rparr>"
  by (simp add: handleKeyDown_def Let_def)

lemma handleKeyDown_armed_resolves:
  "key event \<noteq> ''Shift'' \<Longrightarrow> prefixInfo st = None \<Longrightarrow>
   map_of m (toUpperCase env (key event)) \<noteq> None
     \<or> toUpperCase env (key event) \<notin> set (prefixesOf m) \<Longrightarrow>
     handleKeyDown env m event st
       = resolveKeyDown env m event (map_of m (toUpperCase env (key event))) st"
  by (auto simp add: handleKeyDown_def Let_def)

lemma deliver_Shift: "key event = ''Shift'' \<Longrightarrow> deliver env ls event st = st"
  by (induction ls) (simp_all add: handleKeyDown_Shift)

lemma keydown_none: "keydownListeners st = [] \<Longrightarrow> keydown env event st = st"
  by (simp add: keydown_def)

lemma keydown_single:
  "keydownListeners st = [m] \<Longrightarrow> keydown env event st = after (handleKeyDown env m event st)"
  by (simp add: keydown_def Let_def)

subsection \<open>Concrete sessions\<close>

lemma exampleSession_A:
  "exampleSession [''A'']
     = \<lparr>isLinkHintActive = True, prefixInfo = None, mode = popovers,
        keydownListeners = [[(''A'', exampleHint ''A'')]], jlPopovers = [Some ''A''],
        jlModals = [], hotkeyCalls = [], hostRequests = []\<rparr>"
  by (simp add: exampleSession_def manageLinkHints_def activateLinkHints_def displayPopovers_def
      initial_def setProperty_def propertyKey_def exampleHint_def)

lemma exampleSession_A_BA:
  "exampleSession [''A'', ''BA'']
     = \<lparr>isLinkHintActive = True, prefixInfo = None, mode = popovers,
        keydownListeners = [[(''A'', exampleHint ''A''), (''BA'', exampleHint ''BA'')]],
        jlPopovers = [Some ''A'', Some ''BA''],
        jlModals = [], hotkeyCalls = [], hostRequests = []\<rparr>"
  by (simp add: exampleSession_def manageLinkHints_def activateLinkHints_def displayPopovers_def
      initial_def setProperty_def propertyKey_def exampleHint_def)

lemma getLinkHintLetters_1: "getLinkHintLetters (Suc 0) = [''A'']"
  by (simp add: getLinkHintLetters_def prefixCount_int alphabet_def)

lemma examplePreview_session:
  "handleJumpToLink (PreviewView examplePreview) (initial popovers) = Some (exampleSession [''A''])"
  by (simp add: handleJumpToLink_def managePreviewLinkHints_def getPreviewLinkHints_def
      examplePreview_def anchorLinkHint_def getLinkHintLetters_1 arrayGet_def
      LinkHintBase.truncate_def exampleSession_def exampleHint_def initial_def Let_def)

lemma reachable_exampleSession_A: "reachable (exampleSession [''A''])"
  using reachable.command [OF reachable.start examplePreview_session] .

lemma examplePreview27_hints:
  "map LinkHintBase.truncate (getPreviewLinkHints examplePreview27) = map snd exampleMap27"
  by code_simp

lemma exampleMap27_properties: "fold setProperty (map snd exampleMap27) [] = exampleMap27"
  by code_simp

lemma exampleMap27_nonempty: "exampleMap27 \<noteq> []"
  by (simp add: exampleMap27_def)

lemma exampleSession27_fields:
  "isLinkHintActive exampleSession27"
  "prefixInfo exampleSession27 = None"
  "keydownListeners exampleSession27 = [exampleMap27]"
  "hotkeyCalls exampleSession27 = []"
  by (simp_all add: exampleSession27_def managePreviewLinkHints_def examplePreview27_hints
      manageLinkHints_def exampleMap27_nonempty activateLinkHints_def exampleMap27_properties
      displayPopovers_def initial_def)

lemma reachable_exampleSession27: "reachable exampleSession27"
proof -
  have "handleJumpToLink (PreviewView examplePreview27) (initial popovers) = Some exampleSession27"
    by (simp add: handleJumpToLink_def exampleSession27_def initial_def)
  from reachable.command [OF reachable.start this] show ?thesis .
qed

lemma exampleMap27_lookups:
  "map_of exampleMap27 ''A'' = None"
  "map_of exampleMap27 ''AB'' = Some (exampleNote ''AB'' CHR ''0'')"
  "map_of exampleMap27 ''Q'' = Some (exampleNote ''Q'' CHR ''p'')"
  "''A'' \<in> set (prefixesOf exampleMap27)"
  by (simp_all add: exampleMap27_def prefixesOf_def)

lemma exampleEnv_upper:
  "toUpperCase exampleEnv ''a'' = ''A''"
  "toUpperCase exampleEnv ''b'' = ''B''"
  "toUpperCase exampleEnv ''B'' = ''B''"
  "toUpperCase exampleEnv ''q'' = ''Q''"
  "toUpperCase exampleEnv ''z'' = ''Z''"
  by (simp_all add: toUpperCase_def isAscii_def toUpperAscii_def)

lemma pressed_fields [simp]: "key (pressed k s) = k" "shiftKey (pressed k s) = s"
  by (simp_all add: pressed_def)


subsection \<open>Two keystrokes on the prefix path\<close>

lemma prefix_then_key:
  assumes "keydownListeners st = [m]" and "prefixInfo st = None"
    and "key first \<noteq> ''Shift''" and "key second \<noteq> ''Shift''"
    and "map_of m (toUpperCase env (key first)) = None"
    and "toUpperCase env (key first) \<in> set (prefixesOf m)"
  shows "keydown env first st = st\<lparr>prefixInfo := Some (toUpperCase env (key first), shiftKey first)\<rparr>"
    and "keydown env' second (keydown env first st)
           = after (resolveKeyDown env' m second
                      (map_of m (toUpperCase env (key first) @ toUpperCase env' (key second)))
                      (st\<lparr>prefixInfo := Some (toUpperCase env (key first), shiftKey first)\<rparr>))"
proof -
  let ?st1 = "st\<lparr>prefixInfo := Some (toUpperCase env (key first), shiftKey first)\<rparr>"
  show one: "keydown env first st = ?st1"
    using assms by (simp add: keydown_single handleKeyDown_prefix)
  have "keydownListeners ?st1 = [m]"
    using assms by simp
  then have "keydown env' second ?st1 = after (handleKeyDown env' m second ?st1)"
    by (rule keydown_single)
  also have "handleKeyDown env' m second ?st1
      = resolveKeyDown env' m second
          (map_of m (toUpperCase env (key first) @ toUpperCase env' (key second))) ?st1"
    using assms by (simp add: handleKeyDown_pending)
  finally show "keydown env' second (keydown env first st)
           = after (resolveKeyDown env' m second
                      (map_of m (toUpperCase env (key first) @ toUpperCase env' (key second))) ?st1)"
    unfolding one .
qed

lemma upper_of_key:
  "k \<in> {''a'', ''A''} \<Longrightarrow> toUpperCase env k = ''A''"
  "k \<in> {''b'', ''B''} \<Longrightarrow> toUpperCase env k = ''B''"
  "k \<in> {''z'', ''Z''} \<Longrightarrow> toUpperCase env k = ''Z''"
  by (auto simp: toUpperCase_def isAscii_def toUpperAscii_def)

lemmas session_defs =
  keydown_def handleKeyDown_def resolveKeyDown_def handleHotkey_def teardown_def prefixesOf_def
  toUpperCase_def isAscii_def toUpperAscii_def exampleEnv_def exampleThrowingEnv_def
  exampleHint_def pressed_def Let_def

lemma exampleSession_A_key_a:
  "keydown exampleEnv (pressed ''a'' True) (exampleSession [''A''])
     = (initial popovers)
         \<lparr>hotkeyCalls := [(True, exampleHint ''A'')],
          hostRequests := [OpenLinkText (Some ''note A'') [] True]\<rparr>"
  by (simp add: exampleSession_A session_defs initial_def)

text \<open>
  With a host that throws, the key that matches a label leaves the listener, the
  overlay and the flag in place.
\<close>

lemma throwing_host_keeps_session:
  "keydown exampleThrowingEnv (pressed ''a'' True) (exampleSession [''A''])
     = (exampleSession [''A''])
         \<lparr>hotkeyCalls := [(True, exampleHint ''A'')],
          hostRequests := [OpenLinkText (Some ''note A'') [] True]\<rparr>"
  by (simp add: exampleSession_A session_defs)

subsection \<open>The Shift key\<close>

text \<open>
  C8. A keystroke whose key is exactly \<open>Shift\<close> leaves the state as it is, whatever
  the state: the handler returns at once without consuming the event, so the session
  neither resolves nor advances, and the key pressed next is handled as if the Shift
  keystroke had not been there.
\<close>

theorem shift_alone_is_ignored:
  "key event = ''Shift'' \<Longrightarrow>
     handleKeyDown env m event st = \<lparr>completed = Returned, stopped = False, after = st\<rparr>
     \<and> keydown env event st = st
     \<and> keydown env' event' (keydown env event st) = keydown env' event' st"
  by (simp add: handleKeyDown_Shift keydown_def deliver_Shift)

theorem shift_alone_is_ignored_witness:
  "key (pressed ''Shift'' True) = ''Shift''
   \<and> reachable (exampleSession [''A''])
   \<and> keydown exampleEnv (pressed ''Shift'' True) (exampleSession [''A'']) = exampleSession [''A'']
   \<and> hotkeyCalls (keydown exampleEnv (pressed ''a'' True)
                    (keydown exampleEnv (pressed ''Shift'' True) (exampleSession [''A''])))
       = [(True, exampleHint ''A'')]"
proof -
  have k: "key (pressed ''Shift'' True) = ''Shift''"
    by simp
  from shift_alone_is_ignored [OF k, of exampleEnv _ "exampleSession [''A'']" exampleEnv "pressed ''a'' True"]
    k reachable_exampleSession_A
  show ?thesis by (simp add: exampleSession_A_key_a)
qed

subsection \<open>Teardown\<close>



subsection \<open>The prefix path\<close>

text \<open>
  C1, as amended. When the first keystroke is recorded as a prefix and the second
  completes a label, \<open>handleHotkey\<close> is called with that label's hint and with a
  \<open>newLeaf\<close> flag that is the disjunction of the \<open>shiftKey\<close> recorded with the first
  keystroke and the \<open>shiftKey\<close> of the second.
\<close>

theorem prefix_path_new_pane_flag:
  assumes "keydownListeners st = [m]" and "prefixInfo st = None"
    and "key first \<noteq> ''Shift''" and "key second \<noteq> ''Shift''"
    and "map_of m (toUpperCase env (key first)) = None"
    and "toUpperCase env (key first) \<in> set (prefixesOf m)"
    and "map_of m (toUpperCase env (key first) @ toUpperCase env' (key second)) = Some link"
  shows "prefixInfo (keydown env first st) = Some (toUpperCase env (key first), shiftKey first)
     \<and> hotkeyCalls (keydown env' second (keydown env first st))
         = hotkeyCalls st @ [(shiftKey first \<or> shiftKey second, link)]"
proof -
  note one = prefix_then_key(1) [OF assms(1-6)]
  note two = prefix_then_key(2) [OF assms(1-6), of env']
  have "hotkeyCalls (keydown env' second (keydown env first st))
         = hotkeyCalls st @ [(shiftKey first \<or> shiftKey second, link)]"
    unfolding two using assms(7) by (simp add: resolveKeyDown_calls)
  moreover have "prefixInfo (keydown env first st) = Some (toUpperCase env (key first), shiftKey first)"
    by (simp add: one)
  ultimately show ?thesis by simp
qed

theorem prefix_path_new_pane_flag_witness:
  "reachable exampleSession27
   \<and> keydownListeners exampleSession27 = [exampleMap27]
   \<and> prefixInfo exampleSession27 = None
   \<and> key (pressed ''a'' True) \<noteq> ''Shift'' \<and> key (pressed ''b'' False) \<noteq> ''Shift''
   \<and> map_of exampleMap27 (toUpperCase exampleEnv (key (pressed ''a'' True))) = None
   \<and> toUpperCase exampleEnv (key (pressed ''a'' True)) \<in> set (prefixesOf exampleMap27)
   \<and> map_of exampleMap27
        (toUpperCase exampleEnv (key (pressed ''a'' True)) @ toUpperCase exampleEnv (key (pressed ''b'' False)))
       = Some (exampleNote ''AB'' CHR ''0'')
   \<and> hotkeyCalls (keydown exampleEnv (pressed ''b'' False) (keydown exampleEnv (pressed ''a'' True) exampleSession27))
       = [(True, exampleNote ''AB'' CHR ''0'')]"
proof -
  have a: "keydownListeners exampleSession27 = [exampleMap27]"
    and b: "prefixInfo exampleSession27 = None"
    and c: "key (pressed ''a'' True) \<noteq> ''Shift''" and d: "key (pressed ''b'' False) \<noteq> ''Shift''"
    and e: "map_of exampleMap27 (toUpperCase exampleEnv (key (pressed ''a'' True))) = None"
    and f: "toUpperCase exampleEnv (key (pressed ''a'' True)) \<in> set (prefixesOf exampleMap27)"
    and g: "map_of exampleMap27
        (toUpperCase exampleEnv (key (pressed ''a'' True)) @ toUpperCase exampleEnv (key (pressed ''b'' False)))
       = Some (exampleNote ''AB'' CHR ''0'')"
    by (simp_all add: exampleSession27_fields exampleEnv_upper exampleMap27_lookups)
  from prefix_path_new_pane_flag [OF a b c d e f g] a b c d e f g reachable_exampleSession27
  show ?thesis by (simp add: exampleSession27_fields)
qed

text \<open>
  The flag is not the one recorded with the first keystroke alone: in the session on
  27 links, with Shift released at the prefix key and held at the second key, the hint
  is opened in a new pane.
\<close>

theorem prefix_path_first_shift_only_counterexample:
  "reachable exampleSession27
   \<and> prefixInfo (keydown exampleEnv (pressed ''a'' False) exampleSession27) = Some (''A'', False)
   \<and> hotkeyCalls (keydown exampleEnv (pressed ''b'' True)
                    (keydown exampleEnv (pressed ''a'' False) exampleSession27))
       = [(True, exampleNote ''AB'' CHR ''0'')]"
proof -
  have a: "keydownListeners exampleSession27 = [exampleMap27]"
    and b: "prefixInfo exampleSession27 = None"
    and c: "key (pressed ''a'' False) \<noteq> ''Shift''" and d: "key (pressed ''b'' True) \<noteq> ''Shift''"
    and e: "map_of exampleMap27 (toUpperCase exampleEnv (key (pressed ''a'' False))) = None"
    and f: "toUpperCase exampleEnv (key (pressed ''a'' False)) \<in> set (prefixesOf exampleMap27)"
    by (simp_all add: exampleSession27_fields exampleEnv_upper exampleMap27_lookups)
  note one = prefix_then_key(1) [OF a b c d e f]
  note two = prefix_then_key(2) [OF a b c d e f, of exampleEnv]
  have "hotkeyCalls (keydown exampleEnv (pressed ''b'' True)
                    (keydown exampleEnv (pressed ''a'' False) exampleSession27))
       = [(True, exampleNote ''AB'' CHR ''0'')]"
    unfolding two
    by (simp add: resolveKeyDown_calls exampleSession27_fields exampleEnv_upper exampleMap27_lookups)
  moreover have "prefixInfo (keydown exampleEnv (pressed ''a'' False) exampleSession27) = Some (''A'', False)"
    by (simp add: one exampleEnv_upper)
  ultimately show ?thesis
    using reachable_exampleSession27 by simp
qed

text \<open>
  C4. In a session with no prefix pending whose labels are prefix-free and include \<open>A\<close>
  and \<open>BA\<close> but not \<open>BZ\<close>, the keys B then A call \<open>handleHotkey\<close> for the hint of \<open>BA\<close>, and
  the keys B then Z call nothing and leave no listener, no overlay element, no pending
  prefix and no active session.
\<close>

theorem prefix_session_resolution:
  assumes "keydownListeners st = [m]" and "prefixInfo st = None" and "prefixFree m"
    and "map_of m ''A'' = Some hintA" and "map_of m ''BA'' = Some hintBA"
    and "map_of m ''BZ'' = None"
    and "key keyB \<in> {''b'', ''B''}" and "key keyA \<in> {''a'', ''A''}" and "key keyZ \<in> {''z'', ''Z''}"
  shows "hotkeyCalls (keydown env' keyA (keydown env keyB st))
           = hotkeyCalls st @ [(shiftKey keyB \<or> shiftKey keyA, hintBA)]
     \<and> hotkeyCalls (keydown env' keyZ (keydown env keyB st)) = hotkeyCalls st
     \<and> hostRequests (keydown env' keyZ (keydown env keyB st)) = hostRequests st
     \<and> keydownListeners (keydown env' keyZ (keydown env keyB st)) = []
     \<and> jlPopovers (keydown env' keyZ (keydown env keyB st)) = []
     \<and> jlModals (keydown env' keyZ (keydown env keyB st)) = []
     \<and> prefixInfo (keydown env' keyZ (keydown env keyB st)) = None
     \<and> \<not> isLinkHintActive (keydown env' keyZ (keydown env keyB st))"
proof -
  have uB: "toUpperCase env (key keyB) = ''B''" and uA: "toUpperCase env' (key keyA) = ''A''"
    and uZ: "toUpperCase env' (key keyZ) = ''Z''"
    using assms(7-9) by (simp_all add: upper_of_key)
  have nB: "key keyB \<noteq> ''Shift''" and nA: "key keyA \<noteq> ''Shift''" and nZ: "key keyZ \<noteq> ''Shift''"
    using assms(7-9) by auto
  have noB: "map_of m (toUpperCase env (key keyB)) = None"
    unfolding uB using assms(3,5) by (rule prefixFree_no_B)
  have pre: "toUpperCase env (key keyB) \<in> set (prefixesOf m)"
    unfolding uB using assms(5) by (rule prefixesOf_member)
  note twoA = prefix_then_key(2) [OF assms(1,2) nB nA noB pre, of env']
  note twoZ = prefix_then_key(2) [OF assms(1,2) nB nZ noB pre, of env']
  show ?thesis
    unfolding twoA twoZ uB uA uZ
    using assms(1,5,6) by (simp add: resolveKeyDown_calls resolveKeyDown_None)
qed

theorem prefix_session_resolution_witness:
  "keydownListeners (exampleSession [''A'', ''BA''])
      = [[(''A'', exampleHint ''A''), (''BA'', exampleHint ''BA'')]]
   \<and> prefixInfo (exampleSession [''A'', ''BA'']) = None
   \<and> prefixFree [(''A'', exampleHint ''A''), (''BA'', exampleHint ''BA'')]
   \<and> map_of [(''A'', exampleHint ''A''), (''BA'', exampleHint ''BA'')] ''A'' = Some (exampleHint ''A'')
   \<and> map_of [(''A'', exampleHint ''A''), (''BA'', exampleHint ''BA'')] ''BA'' = Some (exampleHint ''BA'')
   \<and> map_of [(''A'', exampleHint ''A''), (''BA'', exampleHint ''BA'')] ''BZ'' = None
   \<and> key (pressed ''b'' False) \<in> {''b'', ''B''}
   \<and> key (pressed ''a'' False) \<in> {''a'', ''A''}
   \<and> key (pressed ''z'' False) \<in> {''z'', ''Z''}
   \<and> hotkeyCalls (keydown exampleEnv (pressed ''a'' False)
                    (keydown exampleEnv (pressed ''b'' False) (exampleSession [''A'', ''BA''])))
       = [(False, exampleHint ''BA'')]
   \<and> hotkeyCalls (keydown exampleEnv (pressed ''z'' False)
                    (keydown exampleEnv (pressed ''b'' False) (exampleSession [''A'', ''BA'']))) = []
   \<and> keydownListeners (keydown exampleEnv (pressed ''z'' False)
                    (keydown exampleEnv (pressed ''b'' False) (exampleSession [''A'', ''BA'']))) = []
   \<and> \<not> isLinkHintActive (keydown exampleEnv (pressed ''z'' False)
                    (keydown exampleEnv (pressed ''b'' False) (exampleSession [''A'', ''BA''])))"
proof -
  have a: "keydownListeners (exampleSession [''A'', ''BA''])
      = [[(''A'', exampleHint ''A''), (''BA'', exampleHint ''BA'')]]"
    and b: "prefixInfo (exampleSession [''A'', ''BA'']) = None"
    and c: "map_of [(''A'', exampleHint ''A''), (''BA'', exampleHint ''BA'')] ''A'' = Some (exampleHint ''A'')"
    and d: "map_of [(''A'', exampleHint ''A''), (''BA'', exampleHint ''BA'')] ''BA'' = Some (exampleHint ''BA'')"
    and e: "map_of [(''A'', exampleHint ''A''), (''BA'', exampleHint ''BA'')] ''BZ'' = None"
    and g: "key (pressed ''b'' False) \<in> {''b'', ''B''}"
    and h: "key (pressed ''a'' False) \<in> {''a'', ''A''}"
    and i: "key (pressed ''z'' False) \<in> {''z'', ''Z''}"
    and j: "hotkeyCalls (exampleSession [''A'', ''BA'']) = []"
    by (simp_all add: exampleSession_A_BA)
  have f: "prefixFree [(''A'', exampleHint ''A''), (''BA'', exampleHint ''BA'')]"
    by (simp add: prefixFree_def strict_prefix_def)
  from prefix_session_resolution [OF a b f c d e g h i, of exampleEnv exampleEnv] a b c d e f g h i j
  show ?thesis by simp
qed

text \<open>
  C10. While a prefix is pending, the key is put in upper case before it is appended to
  the prefix and looked up: for each of the 26 letters, where the prefix followed by
  the upper-case letter is a label of the map, pressing the lower-case letter and
  pressing the upper-case letter have the same outcome, and both call \<open>handleHotkey\<close>
  for the hint of that label.
\<close>

theorem second_key_case_normalized:
  assumes "prefixInfo st = Some (p, s)"
    and "(lower, upper) \<in> set (zip ''abcdefghijklmnopqrstuvwxyz'' ''ABCDEFGHIJKLMNOPQRSTUVWXYZ'')"
    and "map_of m (p @ [upper]) = Some link"
  shows "handleKeyDown env m \<lparr>key = [lower], shiftKey = sh\<rparr> st
           = handleKeyDown env m \<lparr>key = [upper], shiftKey = sh\<rparr> st
     \<and> hotkeyCalls (after (handleKeyDown env m \<lparr>key = [lower], shiftKey = sh\<rparr> st))
           = hotkeyCalls st @ [(s \<or> sh, link)]"
proof -
  have n1: "key \<lparr>key = [lower], shiftKey = sh\<rparr> \<noteq> ''Shift''"
    and n2: "key \<lparr>key = [upper], shiftKey = sh\<rparr> \<noteq> ''Shift''"
    by simp_all
  have lo: "handleKeyDown env m \<lparr>key = [lower], shiftKey = sh\<rparr> st
      = resolveKeyDown env m \<lparr>key = [lower], shiftKey = sh\<rparr> (Some link) st"
    using assms by (simp add: handleKeyDown_pending [OF n1] toUpperCase_letter(1) [OF assms(2)])
  have up: "handleKeyDown env m \<lparr>key = [upper], shiftKey = sh\<rparr> st
      = resolveKeyDown env m \<lparr>key = [upper], shiftKey = sh\<rparr> (Some link) st"
    using assms by (simp add: handleKeyDown_pending [OF n2] toUpperCase_letter(2) [OF assms(2)])
  have same: "resolveKeyDown env m \<lparr>key = [lower], shiftKey = sh\<rparr> (Some link) st
      = resolveKeyDown env m \<lparr>key = [upper], shiftKey = sh\<rparr> (Some link) st"
    by (rule resolveKeyDown_same_shift) simp
  show ?thesis
    unfolding lo up same using assms(1) by (simp add: resolveKeyDown_calls)
qed

theorem second_key_case_normalized_witness:
  "reachable (keydown exampleEnv (pressed ''a'' False) exampleSession27)
   \<and> prefixInfo (keydown exampleEnv (pressed ''a'' False) exampleSession27) = Some (''A'', False)
   \<and> (CHR ''b'', CHR ''B'') \<in> set (zip ''abcdefghijklmnopqrstuvwxyz'' ''ABCDEFGHIJKLMNOPQRSTUVWXYZ'')
   \<and> map_of exampleMap27 (''A'' @ ''B'') = Some (exampleNote ''AB'' CHR ''0'')
   \<and> handleKeyDown exampleEnv exampleMap27 \<lparr>key = ''b'', shiftKey = False\<rparr>
        (keydown exampleEnv (pressed ''a'' False) exampleSession27)
      = handleKeyDown exampleEnv exampleMap27 \<lparr>key = ''B'', shiftKey = False\<rparr>
        (keydown exampleEnv (pressed ''a'' False) exampleSession27)
   \<and> hotkeyCalls (after (handleKeyDown exampleEnv exampleMap27 \<lparr>key = ''b'', shiftKey = False\<rparr>
        (keydown exampleEnv (pressed ''a'' False) exampleSession27)))
      = [(False, exampleNote ''AB'' CHR ''0'')]"
proof -
  have l: "keydownListeners exampleSession27 = [exampleMap27]"
    and n: "prefixInfo exampleSession27 = None"
    and c: "key (pressed ''a'' False) \<noteq> ''Shift''"
    and e: "map_of exampleMap27 (toUpperCase exampleEnv (key (pressed ''a'' False))) = None"
    and f: "toUpperCase exampleEnv (key (pressed ''a'' False)) \<in> set (prefixesOf exampleMap27)"
    by (simp_all add: exampleSession27_fields exampleEnv_upper exampleMap27_lookups)
  have st: "keydown exampleEnv (pressed ''a'' False) exampleSession27
      = exampleSession27\<lparr>prefixInfo := Some (''A'', False)\<rparr>"
    using prefix_then_key(1) [OF l n c c e f] by (simp add: exampleEnv_upper)
  have r: "reachable (keydown exampleEnv (pressed ''a'' False) exampleSession27)"
    using reachable_exampleSession27 by (rule reachable.keystroke)
  have a: "prefixInfo (keydown exampleEnv (pressed ''a'' False) exampleSession27) = Some (''A'', False)"
    by (simp add: st)
  have b: "(CHR ''b'', CHR ''B'') \<in> set (zip ''abcdefghijklmnopqrstuvwxyz'' ''ABCDEFGHIJKLMNOPQRSTUVWXYZ'')"
    by simp
  have d: "map_of exampleMap27 (''A'' @ ''B'') = Some (exampleNote ''AB'' CHR ''0'')"
    by (simp add: exampleMap27_lookups)
  have h: "hotkeyCalls (keydown exampleEnv (pressed ''a'' False) exampleSession27) = []"
    by (simp add: st exampleSession27_fields)
  from second_key_case_normalized [OF a b d, of exampleEnv False] r a b d h
  show ?thesis by auto
qed

section \<open>One session at a time\<close>

lemma manageLinkHints_oneSession:
  "\<not> isLinkHintActive st \<Longrightarrow> keydownListeners st = [] \<Longrightarrow> oneSession (manageLinkHints hs st)"
  by (simp add: manageLinkHints_def activateLinkHints_def displayModal_def displayPopovers_def
      oneSession_def Let_def split: LinkHintMode.split)

lemma handleJumpToLink_active: "isLinkHintActive st \<Longrightarrow> handleJumpToLink v st = Some st"
  by (simp add: handleJumpToLink_def)

lemma handleJumpToLink_oneSession:
  assumes "oneSession st" and "handleJumpToLink v st = Some st'"
  shows "oneSession st'"
proof (cases "isLinkHintActive st")
  case True
  with assms show ?thesis by (simp add: handleJumpToLink_def)
next
  case False
  with assms(1) have none: "keydownListeners st = []"
    by (simp add: oneSession_def)
  show ?thesis
  proof (cases v)
    case (PreviewView el)
    with False assms(2) have "st' = managePreviewLinkHints el st"
      by (simp add: handleJumpToLink_def)
    then show ?thesis
      using False none by (simp add: managePreviewLinkHints_def manageLinkHints_oneSession)
  next
    case (SourceView strs)
    with False assms(2) obtain hs where "st' = manageLinkHints hs st"
      by (auto simp: handleJumpToLink_def manageSourceLinkHints_def)
    then show ?thesis
      using False none by (simp add: manageLinkHints_oneSession)
  next
    case OtherView
    with False assms show ?thesis by (simp add: handleJumpToLink_def)
  qed
qed

lemma resolveKeyDown_oneSession:
  assumes "keydownListeners st = [m]" and "isLinkHintActive st"
  shows "oneSession (after (resolveKeyDown env m event found st))"
proof (rule resolveKeyDown_cases [of env m event found st])
  fix st'
  assume "resolveKeyDown env m event found st
            = \<lparr>completed = Returned, stopped = True, after = teardown m st'\<rparr>"
    and "keydownListeners st' = keydownListeners st"
  with assms show ?thesis by (simp add: oneSession_def)
next
  fix st'
  assume "resolveKeyDown env m event found st = \<lparr>completed = Threw, stopped = True, after = st'\<rparr>"
    and "keydownListeners st' = keydownListeners st"
    and "isLinkHintActive st' = isLinkHintActive st"
  with assms show ?thesis by (simp add: oneSession_def)
qed

lemma handleKeyDown_oneSession:
  assumes "keydownListeners st = [m]" and "isLinkHintActive st"
  shows "oneSession (after (handleKeyDown env m event st))"
proof (cases "key event = ''Shift''")
  case True
  with assms show ?thesis by (simp add: handleKeyDown_Shift oneSession_def)
next
  case False
  show ?thesis
  proof (cases "prefixInfo st = None \<and> map_of m (toUpperCase env (key event)) = None
                 \<and> toUpperCase env (key event) \<in> set (prefixesOf m)")
    case True
    with False assms show ?thesis
      by (simp add: handleKeyDown_prefix oneSession_def)
  next
    case no: False
    have "prefixInfo st = None \<or> (\<exists>p s. prefixInfo st = Some (p, s))"
      by (cases "prefixInfo st") auto
    then obtain found where "handleKeyDown env m event st = resolveKeyDown env m event found st"
      using False no handleKeyDown_armed_resolves handleKeyDown_pending by blast
    then show ?thesis
      using assms by (simp add: resolveKeyDown_oneSession)
  qed
qed

lemma keydown_oneSession:
  assumes "oneSession st"
  shows "oneSession (keydown env event st)"
proof (cases "isLinkHintActive st")
  case False
  with assms have "keydownListeners st = []" by (simp add: oneSession_def)
  with assms show ?thesis by (simp add: keydown_none)
next
  case True
  with assms have "length (keydownListeners st) = 1" by (simp add: oneSession_def)
  then obtain m where m: "keydownListeners st = [m]"
    by (cases "keydownListeners st") auto
  with True show ?thesis
    by (simp add: keydown_single handleKeyDown_oneSession)
qed

lemma reachable_oneSession: "reachable st \<Longrightarrow> oneSession st"
proof (induction rule: reachable.induct)
  case (start m)
  show ?case by (simp add: initial_def oneSession_def)
next
  case (command st v st')
  then show ?case by (simp add: handleJumpToLink_oneSession)
next
  case (keystroke st env event)
  then show ?case by (simp add: keydown_oneSession)
next
  case (setting st m)
  then show ?case by (simp add: oneSession_def)
qed

text \<open>
  C6. While \<open>isLinkHintActive\<close> is set, the command changes nothing: the state after
  \<open>handleJumpToLink\<close> is the state before it, with no further listener and no further
  overlay. Hence in every state the plugin can reach there is one listener while a
  session is active and none otherwise.
\<close>

theorem activation_while_active_is_noop:
  "(isLinkHintActive st \<longrightarrow> handleJumpToLink v st = Some st)
   \<and> (reachable st' \<longrightarrow> length (keydownListeners st') = (if isLinkHintActive st' then 1 else 0))"
  using reachable_oneSession [of st'] by (simp add: handleJumpToLink_active oneSession_def)

theorem activation_while_active_is_noop_witness:
  "isLinkHintActive (exampleSession [''A'']) \<and> reachable (exampleSession [''A''])
   \<and> handleJumpToLink (SourceView ''[[Home]]'') (exampleSession [''A'']) = Some (exampleSession [''A''])
   \<and> length (keydownListeners (exampleSession [''A''])) = 1"
proof -
  have a: "isLinkHintActive (exampleSession [''A''])"
    by (simp add: exampleSession_A)
  from activation_while_active_is_noop
         [of "exampleSession [''A'']" "SourceView ''[[Home]]''" "exampleSession [''A'']"]
       a reachable_exampleSession_A
  show ?thesis by simp
qed

section \<open>The raw-text locator on an example\<close>

lemma example_internal:
  "execLoop regExInternal ([], ''See [[Home]] and [ext](http://x.com) and visit https://y.com now'')
     = Some [(4, Some ''Home'')]"
  by code_simp

lemma example_external:
  "execLoop regExExternal ([], ''See [[Home]] and [ext](http://x.com) and visit https://y.com now'')
     = Some [(4, Some ''http://x.com'')]"
  by code_simp

lemma example_url:
  "execLoop regExUrl ([], ''See [[Home]] and [ext](http://x.com) and visit https://y.com now'')
     = Some [(47, Some ''https://y.com'')]"
  by code_simp

lemma getLinkHintLetters_3: "getLinkHintLetters (Suc (Suc (Suc 0))) = [''A'', ''B'', ''C'']"
  by (simp add: getLinkHintLetters_def prefixCount_int alphabet_def)

text \<open>
  C7. On the text \<open>See [[Home]] and [ext](http://x.com) and visit https://y.com now\<close> the
  raw-text locator returns exactly three hints, ordered by index: the internal link
  \<open>Home\<close>, the external link \<open>http://x.com\<close> and the external link \<open>https://y.com\<close>. The
  first two have the same index, since the bracketed external pattern matches from the
  first bracket of \<open>[[Home]]\<close>; the stable sort keeps the internal one first.
\<close>

theorem raw_text_example:
  "getSourceLinkHints ''See [[Home]] and [ext](http://x.com) and visit https://y.com now''
     = Some [\<lparr>letter = Some ''A'', linkText = Some ''Home'', type = internal, index = 4\<rparr>,
             \<lparr>letter = Some ''B'', linkText = Some ''http://x.com'', type = external, index = 4\<rparr>,
             \<lparr>letter = Some ''C'', linkText = Some ''https://y.com'', type = external, index = 47\<rparr>]"
  by (simp add: getSourceLinkHints_def example_internal example_external example_url
      getLinkHintLetters_3 arrayGet_def Let_def)

end
